theory Spec2Isabelle
  imports Main
begin

section \<open>Python strings\<close>

text \<open>
  The texts handed to \<open>analyze_status\<close> are Python \<open>str\<close> values. They are modelled as
  \<open>string\<close>, one \<open>char\<close> per code point, so the model covers the texts whose code points
  lie in 0..255 (ASCII and the Latin-1 supplement). \<open>code\<close> is Python's \<open>ord\<close>.
\<close>

definition code :: "char \<Rightarrow> nat" where
  "code c = of_char c"

text \<open>The code points below 256 that \<open>str.lower\<close> changes: A-Z and the capital
  letters 192..214, 216..222; each moves up by 32.\<close>

definition is_cased_upper :: "char \<Rightarrow> bool" where
  "is_cased_upper c =
     ((65 \<le> code c \<and> code c \<le> 90) \<or> (192 \<le> code c \<and> code c \<le> 214)
      \<or> (216 \<le> code c \<and> code c \<le> 222))"

definition lower_char :: "char \<Rightarrow> char" where
  "lower_char c = (if is_cased_upper c then char_of (code c + 32) else c)"

definition py_lower :: "string \<Rightarrow> string" where
  "py_lower s = map lower_char s"

text \<open>\<open>\d\<close>, \<open>\s\<close> (also the characters \<open>str.strip\<close> removes) and \<open>\w\<close> of a
  \<open>str\<close> pattern, on the code points below 256.\<close>

definition is_digit :: "char \<Rightarrow> bool" where
  "is_digit c = (48 \<le> code c \<and> code c \<le> 57)"

definition is_space :: "char \<Rightarrow> bool" where
  "is_space c =
     ((9 \<le> code c \<and> code c \<le> 13) \<or> (28 \<le> code c \<and> code c \<le> 32)
      \<or> code c = 133 \<or> code c = 160)"

definition is_word :: "char \<Rightarrow> bool" where
  "is_word c =
     ((48 \<le> code c \<and> code c \<le> 57) \<or> (65 \<le> code c \<and> code c \<le> 90) \<or> code c = 95
      \<or> (97 \<le> code c \<and> code c \<le> 122) \<or> code c = 170 \<or> code c = 178 \<or> code c = 179
      \<or> code c = 181 \<or> code c = 185 \<or> code c = 186 \<or> (188 \<le> code c \<and> code c \<le> 190)
      \<or> (192 \<le> code c \<and> code c \<le> 214) \<or> (216 \<le> code c \<and> code c \<le> 246)
      \<or> (248 \<le> code c \<and> code c \<le> 255))"

definition py_strip :: "string \<Rightarrow> string" where
  "py_strip s = rev (dropWhile is_space (rev (dropWhile is_space s)))"

text \<open>\<open>s.startswith(p)\<close>, and the substring test \<open>p in s\<close>.\<close>

fun starts_with :: "string \<Rightarrow> string \<Rightarrow> bool" where
  "starts_with s [] = True"
| "starts_with [] (p # ps) = False"
| "starts_with (c # cs) (p # ps) = (c = p \<and> starts_with cs ps)"

fun py_in :: "string \<Rightarrow> string \<Rightarrow> bool" where
  "py_in p [] = (p = [])"
| "py_in p (c # cs) = (starts_with (c # cs) p \<or> py_in p cs)"

text \<open>Truthiness of an optional string: \<open>None\<close> and the empty string are falsy.\<close>

fun truthy :: "string option \<Rightarrow> bool" where
  "truthy None = False"
| "truthy (Some s) = (s \<noteq> [])"

section \<open>The regular expressions of the script\<close>

text \<open>
  The fragment of Python's \<open>re\<close> syntax that the two patterns of \<open>analyze_status\<close> use.
  An \<open>atom\<close> matches one character: a literal, a range \<open>lo-hi\<close>, the dot, the classes
  \<open>\d \s \w\<close>, or a bracketed set of atoms. Quantifiers stand on atoms only, as they do
  in the source: \<open>a+\<close> (greedy), \<open>a*?\<close> and \<open>a+?\<close> (lazy); \<open>r?\<close> is greedy.
  \<open>Grp\<close> is capturing group 1 (neither pattern has a second group), \<open>Eos\<close> is \<open>$\<close>.
\<close>

datatype atom = Ch char | Rng char char | AnyCh | Digit | Space | Word | OneOf "atom list"

datatype rx =
    Atom atom
  | Lit string
  | Seq rx rx
  | Alt rx rx
  | Opt rx
  | Plus atom
  | StarLazy atom
  | PlusLazy atom
  | Grp rx
  | Eos

definition char_range :: "char \<Rightarrow> char \<Rightarrow> char list" where
  "char_range lo hi = map char_of [code lo ..< Suc (code hi)]"

text \<open>
  \<open>atom_ok ic a c\<close>: character \<open>c\<close> matches atom \<open>a\<close>; \<open>ic\<close> is \<open>re.IGNORECASE\<close>. Under
  that flag the engine lowers the character read and compares it with the lowered
  literal, or with the lowered members of a range. The dot rejects the newline only
  (no \<open>re.DOTALL\<close>).
\<close>

definition fold_case :: "bool \<Rightarrow> char \<Rightarrow> char" where
  "fold_case ic c = (if ic then lower_char c else c)"

fun atom_ok :: "bool \<Rightarrow> atom \<Rightarrow> char \<Rightarrow> bool" where
  "atom_ok ic (Ch l) c = (fold_case ic c = fold_case ic l)"
| "atom_ok ic (Rng lo hi) c =
     (if ic then list_ex (\<lambda>x. lower_char x = lower_char c) (char_range lo hi)
      else code lo \<le> code c \<and> code c \<le> code hi)"
| "atom_ok ic AnyCh c = (c \<noteq> CHR 0x0A)"
| "atom_ok ic Digit c = is_digit (fold_case ic c)"
| "atom_ok ic Space c = is_space (fold_case ic c)"
| "atom_ok ic Word c = is_word (fold_case ic c)"
| "atom_ok ic (OneOf as) c = list_ex (\<lambda>a. atom_ok ic a c) as"

fun starts_with_rx :: "bool \<Rightarrow> string \<Rightarrow> string \<Rightarrow> bool" where
  "starts_with_rx ic s [] = True"
| "starts_with_rx ic [] (p # ps) = False"
| "starts_with_rx ic (c # cs) (p # ps) =
     (fold_case ic c = fold_case ic p \<and> starts_with_rx ic cs ps)"

text \<open>
  The backtracking matcher as a list of successes. A position in the subject is the
  suffix that remains to be read. \<open>ms ic r s g\<close> lists, in the order in which Python's
  backtracking engine tries them, the ways \<open>r\<close> can match at the start of \<open>s\<close>: each is
  the suffix left after the match and the text of group 1 (\<open>g\<close> before the match). A
  greedy quantifier lists the longest repetition first, a lazy one the shortest first, an
  alternation its left branch first.
\<close>

fun lazy_star :: "(char \<Rightarrow> bool) \<Rightarrow> string \<Rightarrow> string list" where
  "lazy_star p [] = [[]]"
| "lazy_star p (c # cs) = (c # cs) # (if p c then lazy_star p cs else [])"

fun greedy_star :: "(char \<Rightarrow> bool) \<Rightarrow> string \<Rightarrow> string list" where
  "greedy_star p [] = [[]]"
| "greedy_star p (c # cs) = (if p c then greedy_star p cs else []) @ [c # cs]"

fun lazy_plus :: "(char \<Rightarrow> bool) \<Rightarrow> string \<Rightarrow> string list" where
  "lazy_plus p [] = []"
| "lazy_plus p (c # cs) = (if p c then lazy_star p cs else [])"

fun greedy_plus :: "(char \<Rightarrow> bool) \<Rightarrow> string \<Rightarrow> string list" where
  "greedy_plus p [] = []"
| "greedy_plus p (c # cs) = (if p c then greedy_star p cs else [])"

primrec ms :: "bool \<Rightarrow> rx \<Rightarrow> string \<Rightarrow> string option \<Rightarrow> (string \<times> string option) list" where
  "ms ic (Atom a) s g =
     (case s of [] \<Rightarrow> [] | c # cs \<Rightarrow> if atom_ok ic a c then [(cs, g)] else [])"
| "ms ic (Lit l) s g = (if starts_with_rx ic s l then [(drop (length l) s, g)] else [])"
| "ms ic (Seq r1 r2) s g = concat (map (\<lambda>(s', g'). ms ic r2 s' g') (ms ic r1 s g))"
| "ms ic (Alt r1 r2) s g = ms ic r1 s g @ ms ic r2 s g"
| "ms ic (Opt r) s g = ms ic r s g @ [(s, g)]"
| "ms ic (Plus a) s g = map (\<lambda>s'. (s', g)) (greedy_plus (atom_ok ic a) s)"
| "ms ic (StarLazy a) s g = map (\<lambda>s'. (s', g)) (lazy_star (atom_ok ic a) s)"
| "ms ic (PlusLazy a) s g = map (\<lambda>s'. (s', g)) (lazy_plus (atom_ok ic a) s)"
| "ms ic (Grp r) s g =
     map (\<lambda>(s', g'). (s', Some (take (length s - length s') s))) (ms ic r s g)"
| "ms ic Eos s g = (if s = [] \<or> s = [CHR 0x0A] then [(s, g)] else [])"

text \<open>
  \<open>re.search\<close>: the start positions are tried from left to right, the end of the text
  included; the first success at the first position that has one is the match. A match
  object is modelled by what the script reads from it, \<open>group(1)\<close>, which is \<open>None\<close> when
  the group took no part in the match.
\<close>

datatype re_match = Match (group1: "string option")

fun re_search :: "bool \<Rightarrow> rx \<Rightarrow> string \<Rightarrow> re_match option" where
  "re_search ic r [] = (case ms ic r [] None of [] \<Rightarrow> None | (s', g) # _ \<Rightarrow> Some (Match g))"
| "re_search ic r (c # cs) =
     (case ms ic r (c # cs) None of
        [] \<Rightarrow> re_search ic r cs
      | (s', g) # _ \<Rightarrow> Some (Match g))"

section \<open>analyze\_status\<close>

definition defunct_keywords :: "string list" where
  "defunct_keywords =
     [''ceased operations'', ''defunct'', ''no longer operates'',
      ''discontinued'', ''liquidated'', ''bankrupt'', ''shut down'',
      ''stopped flying'', ''ended operations'', ''closed down'',
      ''ceased trading'', ''went out of business'']"

definition operating_keywords :: "string list" where
  "operating_keywords =
     [''currently operates'', ''operating'', ''operates flights'',
      ''active airline'', ''continues to operate'', ''flying'',
      ''serves destinations'', ''scheduled flights'', ''is operating'']"

definition renamed_keywords :: "string list" where
  "renamed_keywords =
     [''renamed to'', ''rebranded as'', ''now known as'',
      ''changed its name to'', ''became'', ''merged with'',
      ''acquired by'', ''replaced by'']"

text \<open>\<open>any(keyword in text_lower for keyword in keywords)\<close>\<close>

definition any_keyword_in :: "string list \<Rightarrow> string \<Rightarrow> bool" where
  "any_keyword_in keywords text_lower = list_ex (\<lambda>keyword. py_in keyword text_lower) keywords"

definition is_defunct :: "string \<Rightarrow> bool" where
  "is_defunct text = any_keyword_in defunct_keywords (py_lower text)"

definition is_operating :: "string \<Rightarrow> bool" where
  "is_operating text = any_keyword_in operating_keywords (py_lower text)"

definition is_renamed :: "string \<Rightarrow> bool" where
  "is_renamed text = any_keyword_in renamed_keywords (py_lower text)"

text \<open>\<open>ceased operations?.*?(\d{4})\<close>\<close>

definition ceased_date_pattern :: rx where
  "ceased_date_pattern =
     Seq (Lit ''ceased operation'')
       (Seq (Opt (Atom (Ch CHR ''s'')))
         (Seq (StarLazy AnyCh)
           (Grp (Seq (Atom Digit) (Seq (Atom Digit) (Seq (Atom Digit) (Atom Digit)))))))"

definition ceased_year_of :: "string \<Rightarrow> string option" where
  "ceased_year_of text =
     (case re_search False ceased_date_pattern (py_lower text) of
        None \<Rightarrow> None
      | Some ceased_match \<Rightarrow> group1 ceased_match)"

text \<open>\<open>f'{keyword}\s+([A-Z][\w\s&-]+?)(?:\.|,|\sin\s|\sfrom\s|$)'\<close>. Every keyword
  consists of letters and blanks, which stand for themselves in a pattern.\<close>

definition name_pattern :: "string \<Rightarrow> rx" where
  "name_pattern keyword =
     Seq (Lit keyword)
       (Seq (Plus Space)
         (Seq (Grp (Seq (Atom (Rng CHR ''A'' CHR ''Z''))
                        (PlusLazy (OneOf [Word, Space, Ch CHR ''&'', Ch CHR ''-'']))))
              (Alt (Atom (Ch CHR ''.''))
                (Alt (Atom (Ch CHR '',''))
                  (Alt (Seq (Atom Space) (Seq (Lit ''in'') (Atom Space)))
                    (Alt (Seq (Atom Space) (Seq (Lit ''from'') (Atom Space)))
                      Eos))))))"

datatype py_error = AttributeError

text \<open>
  The loop over \<open>renamed_keywords\<close>: the first keyword whose pattern is found in the
  original text (searched with \<open>re.IGNORECASE\<close>) gives the name and ends the loop.
  \<open>match.group(1).strip()\<close> raises \<open>AttributeError\<close> on a group that is \<open>None\<close>.
\<close>

fun find_new_name :: "string \<Rightarrow> string list \<Rightarrow> py_error + string option" where
  "find_new_name text [] = Inr None"
| "find_new_name text (keyword # keywords) =
     (case re_search True (name_pattern keyword) text of
        None \<Rightarrow> find_new_name text keywords
      | Some m \<Rightarrow>
          (case group1 m of
             None \<Rightarrow> Inl AttributeError
           | Some name \<Rightarrow> Inr (Some (py_strip name))))"

definition new_name_of :: "string \<Rightarrow> py_error + string option" where
  "new_name_of text = (if is_renamed text then find_new_name text renamed_keywords else Inr None)"

text \<open>
  The values of the returned dictionary. Its labels are fixed Russian texts, one
  constructor each: \<open>High\<close>, \<open>Medium\<close>, \<open>Low\<close> for the three confidence levels;
  \<open>Defunct y\<close> for the "not operating (ceased y)" label, whose year is the extracted
  one or, for \<open>None\<close>, the words "date unknown"; \<open>Operating\<close>, \<open>Renamed\<close> and \<open>Unknown\<close>
  for the other three status labels. The \<open>new_name\<close> entry is the extracted name, or the
  "n/a" label, modelled by \<open>None\<close>.
\<close>

datatype confidence = High | Medium | Low

datatype status = Defunct "string option" | Operating | Renamed | Unknown

record result =
  status :: status
  new_name :: "string option"
  confidence :: confidence
  ceased_year :: "string option"

definition analyze_status :: "string \<Rightarrow> string \<Rightarrow> py_error + result" where
  "analyze_status text airline_name =
     (let text_lower = py_lower text;
          airline_lower = py_lower airline_name;
          ceased_year = ceased_year_of text
      in case new_name_of text of
           Inl e \<Rightarrow> Inl e
         | Inr name \<Rightarrow>
             (let new_name = name;
                  confidence =
                    (if is_defunct text \<and> truthy ceased_year then High
                     else if is_operating text \<and> py_in ''currently'' text_lower then High
                     else if is_defunct text \<or> is_operating text then Medium
                     else Low);
                  status =
                    (if is_defunct text then Defunct (if truthy ceased_year then ceased_year else None)
                     else if is_operating text then Operating
                     else if is_renamed text \<and> truthy new_name then Renamed
                     else Unknown)
              in Inr \<lparr>status = status,
                      new_name = (if truthy new_name then new_name else None),
                      confidence = confidence,
                      ceased_year = ceased_year\<rparr>))"

text \<open>
  The method of the class: the checker object (its HTTP session, of which the model
  keeps the headers) is passed in and handed back. The body above never reads or
  writes it.
\<close>

record AirlineChecker =
  session_headers :: "(string \<times> string) list"


section \<open>Auxiliary notions for the proofs\<close>

text \<open>\<open>s.find(p)\<close>: the index of the first occurrence of \<open>p\<close> in \<open>s\<close>, \<open>None\<close> for -1.\<close>

fun py_find :: "string \<Rightarrow> string \<Rightarrow> nat option" where
  "py_find p [] = (if p = [] then Some 0 else None)"
| "py_find p (c # cs) =
     (if starts_with (c # cs) p then Some 0 else map_option Suc (py_find p cs))"

text \<open>A pattern without a capturing group.\<close>

fun grp_free :: "rx \<Rightarrow> bool" where
  "grp_free (Grp r) = False"
| "grp_free (Seq r1 r2) = (grp_free r1 \<and> grp_free r2)"
| "grp_free (Alt r1 r2) = (grp_free r1 \<and> grp_free r2)"
| "grp_free (Opt r) = grp_free r"
| "grp_free r = True"

section \<open>The confidence rule as the specification words it\<close>

text \<open>
  The specification's rule for the confidence tier, word for word: high if (defunct
  and a year was extracted) or (operating and the word "currently" is present); medium
  if exactly one of the defunct and operating keyword sets matched; low otherwise. It is
  compared with the code below; it is not part of the script.
\<close>

definition claimed_confidence :: "bool \<Rightarrow> bool \<Rightarrow> bool \<Rightarrow> bool \<Rightarrow> confidence" where
  "claimed_confidence defunct operating year currently =
     (if (defunct \<and> year) \<or> (operating \<and> currently) then High
      else if defunct \<noteq> operating then Medium
      else Low)"

text \<open>
  The year search as the claim words it: "ceased operation" followed, at any distance, by
  four digits. It is compared with the code below; it is not part of the script.
\<close>

definition claimed_year_found :: "string \<Rightarrow> bool" where
  "claimed_year_found text_lower =
     (\<exists>pre mid d post. text_lower = pre @ ''ceased operation'' @ mid @ d @ post
        \<and> length d = 4 \<and> list_all is_digit d)"

section \<open>Facts about the matcher\<close>

lemma lazy_star_suffix: "x \<in> set (lazy_star p s) \<Longrightarrow> \<exists>u. s = u @ x \<and> list_all p u"
proof (induction s)
  case Nil
  then show ?case by simp
next
  case (Cons c cs)
  show ?case
  proof (cases "x = c # cs")
    case True
    then show ?thesis by simp
  next
    case False
    with Cons.prems have pc: "p c" and mem: "x \<in> set (lazy_star p cs)"
      by (auto split: if_splits)
    from Cons.IH [OF mem] obtain u where "cs = u @ x" "list_all p u" by blast
    with pc have "c # cs = (c # u) @ x \<and> list_all p (c # u)" by simp
    then show ?thesis by blast
  qed
qed

lemma greedy_star_suffix: "x \<in> set (greedy_star p s) \<Longrightarrow> \<exists>u. s = u @ x \<and> list_all p u"
proof (induction s)
  case Nil
  then show ?case by simp
next
  case (Cons c cs)
  show ?case
  proof (cases "x = c # cs")
    case True
    then show ?thesis by simp
  next
    case False
    with Cons.prems have pc: "p c" and mem: "x \<in> set (greedy_star p cs)"
      by (auto split: if_splits)
    from Cons.IH [OF mem] obtain u where "cs = u @ x" "list_all p u" by blast
    with pc have "c # cs = (c # u) @ x \<and> list_all p (c # u)" by simp
    then show ?thesis by blast
  qed
qed

lemma lazy_star_self: "x \<in> set (lazy_star p x)"
  by (cases x) simp_all

lemma lazy_star_complete: "list_all p u \<Longrightarrow> x \<in> set (lazy_star p (u @ x))"
  by (induction u) (simp_all add: lazy_star_self)

lemma lazy_plus_suffix: "x \<in> set (lazy_plus p s) \<Longrightarrow> \<exists>c u. s = c # u @ x \<and> p c \<and> list_all p u"
  by (cases s) (auto split: if_splits dest: lazy_star_suffix)

lemma greedy_plus_suffix: "x \<in> set (greedy_plus p s) \<Longrightarrow> \<exists>c u. s = c # u @ x \<and> p c \<and> list_all p u"
  by (cases s) (auto split: if_splits dest: greedy_star_suffix)

lemma starts_with_rx_split: "starts_with_rx ic s l \<Longrightarrow> s = take (length l) s @ drop (length l) s"
  by simp

lemma ms_suffix: "(s', g') \<in> set (ms ic r s g) \<Longrightarrow> \<exists>u. s = u @ s'"
proof (induction r arbitrary: s g s' g')
  case (Atom a)
  then show ?case by (auto split: list.splits if_splits)
next
  case (Lit l)
  then have "s' = drop (length l) s" by (auto split: if_splits)
  then have "s = take (length l) s @ s'" by simp
  then show ?case by blast
next
  case (Seq r1 r2)
  then obtain s1 g1 where a: "(s1, g1) \<in> set (ms ic r1 s g)" and b: "(s', g') \<in> set (ms ic r2 s1 g1)"
    by auto
  from Seq.IH(1) [OF a] obtain u where "s = u @ s1" by blast
  moreover from Seq.IH(2) [OF b] obtain v where "s1 = v @ s'" by blast
  ultimately have "s = (u @ v) @ s'" by simp
  then show ?case by blast
next
  case (Alt r1 r2)
  then show ?case by auto
next
  case (Opt r)
  then show ?case by auto
next
  case (Plus a)
  then show ?case by (auto dest!: greedy_plus_suffix)
next
  case (StarLazy a)
  then show ?case by (auto dest!: lazy_star_suffix)
next
  case (PlusLazy a)
  then show ?case by (auto dest!: lazy_plus_suffix)
next
  case (Grp r)
  then show ?case by auto
next
  case Eos
  then show ?case by (auto split: if_splits)
qed

lemma re_search_None_iff:
  "re_search ic r s = None \<longleftrightarrow> (\<forall>k \<le> length s. ms ic r (drop k s) None = [])"
proof (induction s)
  case Nil
  then show ?case by (auto split: list.splits)
next
  case (Cons c cs)
  have "(\<forall>k \<le> length (c # cs). ms ic r (drop k (c # cs)) None = [])
        \<longleftrightarrow> ms ic r (c # cs) None = [] \<and> (\<forall>k \<le> length cs. ms ic r (drop k cs) None = [])"
    (is "?L \<longleftrightarrow> ?R")
  proof
    assume l: ?L
    have "ms ic r (drop 0 (c # cs)) None = []" using l by blast
    moreover have "\<forall>k \<le> length cs. ms ic r (drop k cs) None = []"
    proof (intro allI impI)
      fix k assume "k \<le> length cs"
      then have "Suc k \<le> length (c # cs)" by simp
      with l have "ms ic r (drop (Suc k) (c # cs)) None = []" by blast
      then show "ms ic r (drop k cs) None = []" by simp
    qed
    ultimately show ?R by simp
  next
    assume r: ?R
    show ?L
    proof (intro allI impI)
      fix k assume "k \<le> length (c # cs)"
      then show "ms ic r (drop k (c # cs)) None = []" using r by (cases k) auto
    qed
  qed
  with Cons.IH show ?case by (auto split: list.splits)
qed

lemma re_search_Some:
  "re_search ic r s = Some m \<Longrightarrow>
     \<exists>k s' rest. k \<le> length s \<and> ms ic r (drop k s) None = (s', group1 m) # rest"
proof (induction s)
  case Nil
  then show ?case by (auto split: list.splits)
next
  case (Cons c cs)
  show ?case
  proof (cases "ms ic r (c # cs) None")
    case Nil
    with Cons.prems have "re_search ic r cs = Some m" by simp
    from Cons.IH [OF this] obtain k s' rest where
      "k \<le> length cs" "ms ic r (drop k cs) None = (s', group1 m) # rest" by blast
    then have "Suc k \<le> length (c # cs) \<and> ms ic r (drop (Suc k) (c # cs)) None = (s', group1 m) # rest"
      by simp
    then show ?thesis by blast
  next
    case (Cons a list)
    with Cons.prems have "ms ic r (drop 0 (c # cs)) None = (fst a, group1 m) # list"
      by (cases a) auto
    then show ?thesis by blast
  qed
qed

lemma ms_grp_free: "grp_free r \<Longrightarrow> (s', g') \<in> set (ms ic r s g) \<Longrightarrow> g' = g"
proof (induction r arbitrary: s g s' g')
  case (Seq r1 r2)
  then obtain s1 g1 where a: "(s1, g1) \<in> set (ms ic r1 s g)" and b: "(s', g') \<in> set (ms ic r2 s1 g1)"
    by auto
  from Seq.prems(1) have f: "grp_free r1" "grp_free r2" by simp_all
  from Seq.IH(1) [OF f(1) a] Seq.IH(2) [OF f(2) b] show ?case by simp
qed (auto split: list.splits if_splits)

lemma ms_Seq_mem:
  "(s', g') \<in> set (ms ic (Seq r1 r2) s g) \<longleftrightarrow>
     (\<exists>s1 g1. (s1, g1) \<in> set (ms ic r1 s g) \<and> (s', g') \<in> set (ms ic r2 s1 g1))"
  by auto

lemma ms_Grp_mem:
  "(s', g') \<in> set (ms ic (Grp r) s g) \<Longrightarrow>
     \<exists>u g1. s = u @ s' \<and> g' = Some u \<and> (s', g1) \<in> set (ms ic r s g)"
proof -
  assume "(s', g') \<in> set (ms ic (Grp r) s g)"
  then obtain g1 where m: "(s', g1) \<in> set (ms ic r s g)"
    and g': "g' = Some (take (length s - length s') s)" by auto
  from ms_suffix [OF m] obtain u where "s = u @ s'" by blast
  with g' m show ?thesis by auto
qed

lemma digits4_mem:
  "(s', g') \<in> set (ms ic (Seq (Atom Digit) (Seq (Atom Digit) (Seq (Atom Digit) (Atom Digit)))) s g)
   \<Longrightarrow> \<exists>a b c d. s = a # b # c # d # s' \<and> is_digit (fold_case ic a) \<and> is_digit (fold_case ic b)
          \<and> is_digit (fold_case ic c) \<and> is_digit (fold_case ic d)"
  by (auto split: list.splits if_splits)

lemma ceased_date_pattern_group:
  assumes "(s', g') \<in> set (ms False ceased_date_pattern s g)"
  shows "\<exists>y. g' = Some y \<and> length y = 4 \<and> list_all is_digit y"
proof -
  from assms obtain s1 g1 where
    "(s', g') \<in> set (ms False (Grp (Seq (Atom Digit) (Seq (Atom Digit) (Seq (Atom Digit) (Atom Digit))))) s1 g1)"
    unfolding ceased_date_pattern_def ms_Seq_mem by blast
  from ms_Grp_mem [OF this] obtain u g2 where u: "s1 = u @ s'" "g' = Some u"
    and m: "(s', g2) \<in> set (ms False (Seq (Atom Digit) (Seq (Atom Digit) (Seq (Atom Digit) (Atom Digit)))) s1 g1)"
    by blast
  from digits4_mem [OF m] obtain a b c d where
    s1: "s1 = a # b # c # d # s'" and dg: "is_digit a" "is_digit b" "is_digit c" "is_digit d"
    by (auto simp: fold_case_def)
  from u(1) s1 have ueq: "u = [a, b, c, d]" by simp
  have "length u = 4 \<and> list_all is_digit u" unfolding ueq using dg by simp
  with u(2) show ?thesis by blast
qed

lemma ceased_year_of_digits:
  assumes "ceased_year_of text = Some y"
  shows "length y = 4 \<and> list_all is_digit y"
proof -
  from assms obtain m where m: "re_search False ceased_date_pattern (py_lower text) = Some m"
    and g: "group1 m = Some y"
    by (auto simp: ceased_year_of_def split: option.splits)
  from re_search_Some [OF m] obtain k s' rest where
    "ms False ceased_date_pattern (drop k (py_lower text)) None = (s', group1 m) # rest" by blast
  then have "(s', group1 m) \<in> set (ms False ceased_date_pattern (drop k (py_lower text)) None)"
    by simp
  from ceased_date_pattern_group [OF this] g show ?thesis by auto
qed

lemma truthy_ceased_year: "truthy (ceased_year_of text) \<longleftrightarrow> ceased_year_of text \<noteq> None"
proof (cases "ceased_year_of text")
  case None
  then show ?thesis by simp
next
  case (Some y)
  from ceased_year_of_digits [OF Some] have "y \<noteq> []" by auto
  with Some show ?thesis by simp
qed

lemma char_range_AZ: "char_range CHR ''A'' CHR ''Z'' = ''ABCDEFGHIJKLMNOPQRSTUVWXYZ''"
  by code_simp

lemma space_lower: "is_space c \<Longrightarrow> lower_char c = c"
  by (auto simp: is_space_def lower_char_def is_cased_upper_def)

lemma letter_not_space: "atom_ok True (Rng CHR ''A'' CHR ''Z'') c \<Longrightarrow> \<not> is_space c"
proof
  assume a: "atom_ok True (Rng CHR ''A'' CHR ''Z'') c" and sp: "is_space c"
  from a have "lower_char c \<in> set (map lower_char ''ABCDEFGHIJKLMNOPQRSTUVWXYZ'')"
    by (auto simp: char_range_AZ list_ex_iff)
  with space_lower [OF sp] have "c \<in> set (map lower_char ''ABCDEFGHIJKLMNOPQRSTUVWXYZ'')" by simp
  also have "map lower_char ''ABCDEFGHIJKLMNOPQRSTUVWXYZ'' = ''abcdefghijklmnopqrstuvwxyz''"
    by code_simp
  finally have "c \<in> set ''abcdefghijklmnopqrstuvwxyz''" .
  then have "\<not> is_space c" by (auto simp: is_space_def code_def)
  with sp show False by simp
qed

lemma py_strip_nonempty: "\<not> is_space c \<Longrightarrow> py_strip (c # u) \<noteq> []"
  by (simp add: py_strip_def dropWhile_append3)

lemma name_pattern_group:
  assumes "(s', g') \<in> set (ms True (name_pattern k) s g)"
  shows "\<exists>c u. g' = Some (c # u) \<and> atom_ok True (Rng CHR ''A'' CHR ''Z'') c"
proof -
  let ?G = "Seq (Atom (Rng CHR ''A'' CHR ''Z''))
              (PlusLazy (OneOf [Word, Space, Ch CHR ''&'', Ch CHR ''-'']))"
  let ?T = "Alt (Atom (Ch CHR ''.''))
                (Alt (Atom (Ch CHR '',''))
                  (Alt (Seq (Atom Space) (Seq (Lit ''in'') (Atom Space)))
                    (Alt (Seq (Atom Space) (Seq (Lit ''from'') (Atom Space)))
                      Eos)))"
  from assms obtain s2 g2 s3 g3 where
    grp: "(s3, g3) \<in> set (ms True (Grp ?G) s2 g2)" and
    tail: "(s', g') \<in> set (ms True ?T s3 g3)"
    unfolding name_pattern_def ms_Seq_mem by blast
  have "grp_free ?T" by simp
  from ms_grp_free [OF this tail] have g': "g' = g3" .
  from ms_Grp_mem [OF grp] obtain u g4 where
    u: "s2 = u @ s3" "g3 = Some u" and m: "(s3, g4) \<in> set (ms True ?G s2 g2)" by blast
  from m obtain c t where c: "s2 = c # t" "atom_ok True (Rng CHR ''A'' CHR ''Z'') c"
    unfolding ms_Seq_mem by (auto split: list.splits if_splits)
  from u(1) c(1) have "u \<noteq> [] \<longrightarrow> hd u = c" by (cases u) auto
  moreover have "u \<noteq> []"
  proof
    assume "u = []"
    with u(1) have e: "s3 = s2" by simp
    from m obtain s4 where "s2 = c # s4" "s3 \<in> set (lazy_plus (atom_ok True (OneOf [Word, Space, Ch CHR ''&'', Ch CHR ''-''])) s4)"
      unfolding ms_Seq_mem using c(1) by (auto split: list.splits if_splits)
    then obtain v where "s4 = v @ s3" by (auto dest!: lazy_plus_suffix)
    with \<open>s2 = c # s4\<close> e have "length s2 = Suc (length v + length s2)" by simp
    then show False by simp
  qed
  ultimately obtain u' where "u = c # u'" by (cases u) auto
  with g' u(2) c(2) show ?thesis by blast
qed

lemma find_new_name_ok:
  "\<exists>n. find_new_name text kws = Inr n \<and> (truthy n \<longleftrightarrow> n \<noteq> None)"
proof (induction kws)
  case Nil
  then show ?case by simp
next
  case (Cons k kws)
  show ?case
  proof (cases "re_search True (name_pattern k) text")
    case None
    with Cons.IH show ?thesis by simp
  next
    case (Some m)
    from re_search_Some [OF Some] obtain j s' rest where
      "ms True (name_pattern k) (drop j text) None = (s', group1 m) # rest" by blast
    then have "(s', group1 m) \<in> set (ms True (name_pattern k) (drop j text) None)" by simp
    from name_pattern_group [OF this] obtain c u where
      g: "group1 m = Some (c # u)" and c: "atom_ok True (Rng CHR ''A'' CHR ''Z'') c" by blast
    from py_strip_nonempty [OF letter_not_space [OF c]] have "py_strip (c # u) \<noteq> []" .
    with Some g show ?thesis by simp
  qed
qed

lemma new_name_of_ok:
  "\<exists>n. new_name_of text = Inr n \<and> (truthy n \<longleftrightarrow> n \<noteq> None)"
  using find_new_name_ok [of "text" renamed_keywords] by (simp add: new_name_of_def)

lemma analyze_status_eq:
  assumes "new_name_of text = Inr n"
  shows "analyze_status text airline_name =
     Inr \<lparr>status =
            (if is_defunct text then Defunct (ceased_year_of text)
             else if is_operating text then Operating
             else if is_renamed text \<and> n \<noteq> None then Renamed
             else Unknown),
          new_name = n,
          confidence =
            (if is_defunct text \<and> ceased_year_of text \<noteq> None then High
             else if is_operating text \<and> py_in ''currently'' (py_lower text) then High
             else if is_defunct text \<or> is_operating text then Medium
             else Low),
          ceased_year = ceased_year_of text\<rparr>"
proof -
  from new_name_of_ok [of "text"] assms have t: "truthy n \<longleftrightarrow> n \<noteq> None" by simp
  have y: "(if truthy (ceased_year_of text) then ceased_year_of text else None) = ceased_year_of text"
    by (simp add: truthy_ceased_year)
  show ?thesis
    unfolding analyze_status_def Let_def assms sum.case y truthy_ceased_year t
    by simp
qed


section \<open>Substrings, first occurrences and the leftmost match\<close>

lemma starts_with_iff: "starts_with s p \<longleftrightarrow> (\<exists>t. s = p @ t)"
  by (induction s p rule: starts_with.induct) auto

lemma py_in_iff: "py_in p s \<longleftrightarrow> (\<exists>pre post. s = pre @ p @ post)"
proof (induction s)
  case Nil
  then show ?case by auto
next
  case (Cons c cs)
  show ?case
  proof
    assume "py_in p (c # cs)"
    then consider "starts_with (c # cs) p" | "py_in p cs" by auto
    then show "\<exists>pre post. c # cs = pre @ p @ post"
    proof cases
      case 1
      then obtain t where "c # cs = [] @ p @ t" by (auto simp: starts_with_iff)
      then show ?thesis by blast
    next
      case 2
      with Cons.IH obtain pre post where "cs = pre @ p @ post" by blast
      then have "c # cs = (c # pre) @ p @ post" by simp
      then show ?thesis by blast
    qed
  next
    assume "\<exists>pre post. c # cs = pre @ p @ post"
    then obtain pre post where e: "c # cs = pre @ p @ post" by blast
    show "py_in p (c # cs)"
    proof (cases pre)
      case Nil
      with e have "starts_with (c # cs) p" by (auto simp: starts_with_iff)
      then show ?thesis by simp
    next
      case (Cons a pre')
      with e have "cs = pre' @ p @ post" by simp
      with Cons.IH have "py_in p cs" by blast
      then show ?thesis by simp
    qed
  qed
qed

lemma py_find_Some:
  "py_find p s = Some k \<Longrightarrow>
     k \<le> length s \<and> starts_with (drop k s) p \<and> (\<forall>i<k. \<not> starts_with (drop i s) p)"
proof (induction s arbitrary: k)
  case Nil
  then show ?case by (auto split: if_splits)
next
  case (Cons c cs)
  show ?case
  proof (cases "starts_with (c # cs) p")
    case True
    with Cons.prems show ?thesis by simp
  next
    case False
    with Cons.prems obtain k' where k: "k = Suc k'" "py_find p cs = Some k'" by auto
    from Cons.IH [OF k(2)] have ih: "k' \<le> length cs" "starts_with (drop k' cs) p"
      "\<forall>i<k'. \<not> starts_with (drop i cs) p" by simp_all
    have "\<forall>i<k. \<not> starts_with (drop i (c # cs)) p"
    proof (intro allI impI)
      fix i assume "i < k"
      then show "\<not> starts_with (drop i (c # cs)) p"
        using False ih(3) k(1) by (cases i) auto
    qed
    with ih k(1) show ?thesis by simp
  qed
qed

lemma starts_with_rx_False: "starts_with_rx False s p = starts_with s p"
  by (induction s p rule: starts_with.induct) (simp_all add: fold_case_def)

lemma starts_with_rx_True: "starts_with_rx True s p = starts_with (py_lower s) (py_lower p)"
  by (induction s p rule: starts_with.induct) (simp_all add: fold_case_def py_lower_def)

lemma ms_Lit_fail: "\<not> starts_with_rx ic s l \<Longrightarrow> ms ic (Seq (Lit l) r) s g = []"
  by simp

lemma re_search_skip:
  "k \<le> length s \<Longrightarrow> \<forall>i<k. \<not> starts_with_rx ic (drop i s) l \<Longrightarrow>
     re_search ic (Seq (Lit l) r) s = re_search ic (Seq (Lit l) r) (drop k s)"
proof (induction k arbitrary: s)
  case 0
  then show ?case by simp
next
  case (Suc k)
  from Suc.prems(1) obtain c cs where s: "s = c # cs" by (cases s) auto
  from Suc.prems(2) have "\<not> starts_with_rx ic (drop 0 s) l" by blast
  with s have f: "ms ic (Seq (Lit l) r) (c # cs) None = []" by simp
  have "\<forall>i<k. \<not> starts_with_rx ic (drop i cs) l"
  proof (intro allI impI)
    fix i assume "i < k"
    then have "Suc i < Suc k" by simp
    with Suc.prems(2) have "\<not> starts_with_rx ic (drop (Suc i) s) l" by blast
    with s show "\<not> starts_with_rx ic (drop i cs) l" by simp
  qed
  moreover from Suc.prems(1) s have "k \<le> length cs" by simp
  ultimately have "re_search ic (Seq (Lit l) r) cs = re_search ic (Seq (Lit l) r) (drop k cs)"
    by (rule Suc.IH [rotated])
  with f s show ?case by simp
qed

lemma re_search_found:
  "k \<le> length s \<Longrightarrow> ms ic r (drop k s) None \<noteq> [] \<Longrightarrow> re_search ic r s \<noteq> None"
  by (auto simp: re_search_None_iff)

lemma py_lower_append: "py_lower (a @ b) = py_lower a @ py_lower b"
  by (simp add: py_lower_def)

lemma py_lower_drop: "py_lower (drop k s) = drop k (py_lower s)"
  by (simp add: py_lower_def drop_map)

lemma length_py_lower: "length (py_lower s) = length s"
  by (simp add: py_lower_def)

lemma ms_1998:
  "take 1 (ms False ceased_date_pattern (''ceased operations in 1998'' @ rest) None)
     = [(rest, Some ''1998'')]"
  apply code_simp
  apply simp
  done

lemma ms_delta:
  "take 1 (ms True (name_pattern ''renamed to'') (''renamed to Delta Airlines.'' @ rest) None)
     = [(rest, Some ''Delta Airlines'')]"
  apply code_simp
  apply simp
  done

section \<open>The two patterns on the texts of the claims\<close>

lemma re_search_at:
  "take 1 (ms ic r s None) = [(s', g)] \<Longrightarrow> re_search ic r s = Some (Match g)"
  by (cases s; cases "ms ic r s None") auto

lemma take1_nonempty: "take 1 xs = [x] \<Longrightarrow> xs \<noteq> []"
  by auto

lemma ceased_year_of_None_iff:
  "ceased_year_of text = None \<longleftrightarrow> re_search False ceased_date_pattern (py_lower text) = None"
proof
  assume n: "ceased_year_of text = None"
  show "re_search False ceased_date_pattern (py_lower text) = None"
  proof (rule ccontr)
    assume "re_search False ceased_date_pattern (py_lower text) \<noteq> None"
    then obtain m where m: "re_search False ceased_date_pattern (py_lower text) = Some m" by blast
    from re_search_Some [OF m] obtain k s' rest where
      "ms False ceased_date_pattern (drop k (py_lower text)) None = (s', group1 m) # rest" by blast
    then have "(s', group1 m) \<in> set (ms False ceased_date_pattern (drop k (py_lower text)) None)"
      by simp
    from ceased_date_pattern_group [OF this] obtain y where "group1 m = Some y" by blast
    with m n show False by (simp add: ceased_year_of_def)
  qed
next
  assume "re_search False ceased_date_pattern (py_lower text) = None"
  then show "ceased_year_of text = None" by (simp add: ceased_year_of_def)
qed

lemma lower_1998: "py_lower ''ceased operations in 1998'' = ''ceased operations in 1998''"
  by code_simp

lemma contains_1998_lower:
  assumes "py_in ''ceased operations in 1998'' text"
  shows "\<exists>pre post. py_lower text = pre @ ''ceased operations in 1998'' @ post"
proof -
  from assms obtain pre post where "text = pre @ ''ceased operations in 1998'' @ post"
    unfolding py_in_iff by blast
  then have "py_lower text = py_lower pre @ ''ceased operations in 1998'' @ py_lower post"
    by (simp only: py_lower_append lower_1998)
  then show ?thesis by blast
qed

lemma contains_1998_defunct:
  assumes "py_in ''ceased operations in 1998'' text"
  shows "is_defunct text"
proof -
  from contains_1998_lower [OF assms] obtain pre post where
    "py_lower text = pre @ ''ceased operations in 1998'' @ post" by blast
  then have "py_lower text = pre @ ''ceased operations'' @ ('' in 1998'' @ post)" by simp
  then have "py_in ''ceased operations'' (py_lower text)" unfolding py_in_iff by blast
  then show ?thesis by (simp add: is_defunct_def any_keyword_in_def defunct_keywords_def)
qed

lemma contains_1998_year:
  assumes "py_in ''ceased operations in 1998'' text"
  shows "ceased_year_of text \<noteq> None"
proof -
  from contains_1998_lower [OF assms] obtain pre post where
    e: "py_lower text = pre @ ''ceased operations in 1998'' @ post" by blast
  then have d: "drop (length pre) (py_lower text) = ''ceased operations in 1998'' @ post" by simp
  from e have l: "length pre \<le> length (py_lower text)" by simp
  have "ms False ceased_date_pattern (drop (length pre) (py_lower text)) None \<noteq> []"
    unfolding d by (rule take1_nonempty [OF ms_1998])
  from re_search_found [OF l this] show ?thesis by (simp add: ceased_year_of_None_iff)
qed

lemma first_1998_year:
  assumes "py_find ''ceased operation'' (py_lower text) = Some k"
    and "starts_with (drop k (py_lower text)) ''ceased operations in 1998''"
  shows "ceased_year_of text = Some ''1998''"
proof -
  from py_find_Some [OF assms(1)] have k: "k \<le> length (py_lower text)"
    and n: "\<forall>i<k. \<not> starts_with_rx False (drop i (py_lower text)) ''ceased operation''"
    by (simp_all add: starts_with_rx_False)
  from assms(2) obtain t where d: "drop k (py_lower text) = ''ceased operations in 1998'' @ t"
    unfolding starts_with_iff by blast
  have "re_search False ceased_date_pattern (py_lower text)
          = re_search False ceased_date_pattern (drop k (py_lower text))"
    unfolding ceased_date_pattern_def by (rule re_search_skip [OF k n])
  also have "\<dots> = Some (Match (Some ''1998''))"
    unfolding d by (rule re_search_at [OF ms_1998])
  finally show ?thesis by (simp add: ceased_year_of_def)
qed

lemma name_match_group:
  assumes "re_search True (name_pattern k) text = Some m"
  shows "\<exists>c u. group1 m = Some (c # u) \<and> \<not> is_space c"
proof -
  from re_search_Some [OF assms] obtain j s' rest where
    "ms True (name_pattern k) (drop j text) None = (s', group1 m) # rest" by blast
  then have "(s', group1 m) \<in> set (ms True (name_pattern k) (drop j text) None)" by simp
  from name_pattern_group [OF this] obtain c u where
    "group1 m = Some (c # u)" "atom_ok True (Rng CHR ''A'' CHR ''Z'') c" by blast
  with letter_not_space show ?thesis by blast
qed

lemma lower_delta:
  "py_lower ''was renamed to Delta Airlines.'' = ''was renamed to delta airlines.''"
  by code_simp

lemma contains_delta_renamed:
  assumes "py_in ''was renamed to Delta Airlines.'' text"
  shows "is_renamed text"
proof -
  from assms obtain pre post where "text = pre @ ''was renamed to Delta Airlines.'' @ post"
    unfolding py_in_iff by blast
  then have "py_lower text = py_lower pre @ ''was renamed to delta airlines.'' @ py_lower post"
    by (simp only: py_lower_append lower_delta)
  then have "py_lower text = (py_lower pre @ ''was '') @ ''renamed to''
                               @ ('' delta airlines.'' @ py_lower post)" by simp
  then have "py_in ''renamed to'' (py_lower text)" unfolding py_in_iff by blast
  then show ?thesis by (simp add: is_renamed_def any_keyword_in_def renamed_keywords_def)
qed

lemma contains_delta_name:
  assumes "py_in ''was renamed to Delta Airlines.'' text"
  shows "\<exists>n. new_name_of text = Inr (Some n) \<and> n \<noteq> []"
proof -
  from assms obtain pre post where e: "text = pre @ ''was renamed to Delta Airlines.'' @ post"
    unfolding py_in_iff by blast
  then have "text = (pre @ ''was '') @ ''renamed to Delta Airlines.'' @ post" by simp
  then have d: "drop (length (pre @ ''was '')) text = ''renamed to Delta Airlines.'' @ post"
    by (metis append_eq_conv_conj)
  from e have l: "length (pre @ ''was '') \<le> length text" by simp
  have "ms True (name_pattern ''renamed to'') (drop (length (pre @ ''was '')) text) None \<noteq> []"
    unfolding d by (rule take1_nonempty [OF ms_delta])
  from re_search_found [OF l this] obtain m where
    m: "re_search True (name_pattern ''renamed to'') text = Some m" by blast
  from name_match_group [OF m] obtain c u where g: "group1 m = Some (c # u)" "\<not> is_space c"
    by blast
  from py_strip_nonempty [OF g(2)] have "py_strip (c # u) \<noteq> []" .
  with m g(1) contains_delta_renamed [OF assms] show ?thesis
    by (simp add: new_name_of_def renamed_keywords_def)
qed

lemma lower_renamed_to: "py_lower ''renamed to'' = ''renamed to''"
  by code_simp

lemma strip_delta: "py_strip ''Delta Airlines'' = ''Delta Airlines''"
  by code_simp

lemma first_delta_name:
  assumes "py_find ''renamed to'' (py_lower text) = Some k"
    and "starts_with (drop k text) ''renamed to Delta Airlines.''"
    and "is_renamed text"
  shows "new_name_of text = Inr (Some ''Delta Airlines'')"
proof -
  from py_find_Some [OF assms(1)] have k: "k \<le> length text"
    and n: "\<forall>i<k. \<not> starts_with_rx True (drop i text) ''renamed to''"
    by (simp_all add: starts_with_rx_True py_lower_drop lower_renamed_to length_py_lower)
  from assms(2) obtain t where d: "drop k text = ''renamed to Delta Airlines.'' @ t"
    unfolding starts_with_iff by blast
  have "re_search True (name_pattern ''renamed to'') text
          = re_search True (name_pattern ''renamed to'') (drop k text)"
    unfolding name_pattern_def by (rule re_search_skip [OF k n])
  also have "\<dots> = Some (Match (Some ''Delta Airlines''))"
    unfolding d by (rule re_search_at [OF ms_delta])
  finally have "re_search True (name_pattern ''renamed to'') text
                  = Some (Match (Some ''Delta Airlines''))" .
  with assms(3) show ?thesis
    by (simp add: new_name_of_def renamed_keywords_def strip_delta)
qed

lemma length4: "length d = 4 \<Longrightarrow> \<exists>a b c e. d = [a, b, c, e]"
  by (auto simp: numeral_eq_Suc length_Suc_conv)

lemma ms_Lit_mem: "(s1, g1) \<in> set (ms False (Lit l) s g) \<Longrightarrow> s = l @ s1"
  by (auto simp: starts_with_rx_False starts_with_iff split: if_splits)

lemma ceased_ms_sound:
  assumes "(s', g') \<in> set (ms False ceased_date_pattern s g)"
  shows "\<exists>mid d. s = ''ceased operation'' @ mid @ d @ s' \<and> CHR 0x0A \<notin> set mid
           \<and> g' = Some d \<and> length d = 4 \<and> list_all is_digit d"
proof -
  let ?D = "Seq (Atom Digit) (Seq (Atom Digit) (Seq (Atom Digit) (Atom Digit)))"
  from assms obtain s1 g1 s2 g2 s3 g3 where
    a: "(s1, g1) \<in> set (ms False (Lit ''ceased operation'') s g)" and
    b: "(s2, g2) \<in> set (ms False (Opt (Atom (Ch CHR ''s''))) s1 g1)" and
    c: "(s3, g3) \<in> set (ms False (StarLazy AnyCh) s2 g2)" and
    d: "(s', g') \<in> set (ms False (Grp ?D) s3 g3)"
    unfolding ceased_date_pattern_def ms_Seq_mem by blast
  from ms_Lit_mem [OF a] have e1: "s = ''ceased operation'' @ s1" .
  from b have "s1 = s2 \<or> s1 = CHR ''s'' # s2"
    by (auto simp: fold_case_def split: list.splits if_splits)
  then obtain u where e2: "s1 = u @ s2" and u: "CHR 0x0A \<notin> set u" by auto
  from c obtain v where e3: "s2 = v @ s3" and v: "list_all (atom_ok False AnyCh) v"
    by (auto dest!: lazy_star_suffix)
  from v have v': "CHR 0x0A \<notin> set v" by (auto simp: list_all_iff)
  from ms_Grp_mem [OF d] obtain w g4 where e4: "s3 = w @ s'" and g': "g' = Some w"
    and m: "(s', g4) \<in> set (ms False ?D s3 g3)" by blast
  from digits4_mem [OF m] obtain x1 x2 x3 x4 where
    s3: "s3 = x1 # x2 # x3 # x4 # s'" and dg: "is_digit x1" "is_digit x2" "is_digit x3" "is_digit x4"
    by (auto simp: fold_case_def)
  from e4 s3 have w: "w = [x1, x2, x3, x4]" by simp
  have wd: "length w = 4 \<and> list_all is_digit w" unfolding w using dg by simp
  from e1 e2 e3 e4 have "s = ''ceased operation'' @ (u @ v) @ w @ s'" by simp
  moreover from u v' have "CHR 0x0A \<notin> set (u @ v)" by simp
  ultimately show ?thesis using g' wd by blast
qed

lemma ceased_ms_complete:
  assumes "CHR 0x0A \<notin> set mid" and "length d = 4" and "list_all is_digit d"
  shows "ms False ceased_date_pattern (''ceased operation'' @ mid @ d @ post) None \<noteq> []"
proof -
  let ?D = "Seq (Atom Digit) (Seq (Atom Digit) (Seq (Atom Digit) (Atom Digit)))"
  let ?s1 = "mid @ d @ post"
  have a: "(?s1, None) \<in> set (ms False (Lit ''ceased operation'') (''ceased operation'' @ ?s1) None)"
    by (simp add: fold_case_def)
  have b: "(?s1, None) \<in> set (ms False (Opt (Atom (Ch CHR ''s''))) ?s1 None)" by simp
  from assms(1) have "list_all (atom_ok False AnyCh) mid" by (auto simp: list_all_iff)
  from lazy_star_complete [OF this] have
    c: "(d @ post, None) \<in> set (ms False (StarLazy AnyCh) ?s1 None)" by simp
  from length4 [OF assms(2)] obtain x1 x2 x3 x4 where d: "d = [x1, x2, x3, x4]" by blast
  with assms(3) have e: "(post, Some d) \<in> set (ms False (Grp ?D) (d @ post) None)"
    by (simp add: fold_case_def)
  from a b c e have "(post, Some d) \<in> set (ms False ceased_date_pattern (''ceased operation'' @ ?s1) None)"
    unfolding ceased_date_pattern_def ms_Seq_mem by blast
  then show ?thesis by auto
qed

lemma ceased_year_Some:
  assumes "ceased_year_of text = Some y"
  shows "\<exists>pre mid post. py_lower text = pre @ ''ceased operation'' @ mid @ y @ post
           \<and> CHR 0x0A \<notin> set mid \<and> length y = 4 \<and> list_all is_digit y"
proof -
  from assms obtain m where m: "re_search False ceased_date_pattern (py_lower text) = Some m"
    and g: "group1 m = Some y"
    by (auto simp: ceased_year_of_def split: option.splits)
  from re_search_Some [OF m] obtain k s' rest where
    "ms False ceased_date_pattern (drop k (py_lower text)) None = (s', group1 m) # rest" by blast
  then have "(s', group1 m) \<in> set (ms False ceased_date_pattern (drop k (py_lower text)) None)"
    by simp
  from ceased_ms_sound [OF this] g obtain mid where
    e: "drop k (py_lower text) = ''ceased operation'' @ mid @ y @ s'"
    and p: "CHR 0x0A \<notin> set mid" "length y = 4" "list_all is_digit y" by auto
  have "py_lower text = take k (py_lower text) @ drop k (py_lower text)" by simp
  with e have "py_lower text = take k (py_lower text) @ ''ceased operation'' @ mid @ y @ s'"
    by simp
  with p show ?thesis by blast
qed

lemma ceased_year_found:
  assumes "py_lower text = pre @ ''ceased operation'' @ mid @ d @ post"
    and "CHR 0x0A \<notin> set mid" and "length d = 4" and "list_all is_digit d"
  shows "ceased_year_of text \<noteq> None"
proof -
  from assms(1) have dr: "drop (length pre) (py_lower text) = ''ceased operation'' @ mid @ d @ post"
    by simp
  from assms(1) have l: "length pre \<le> length (py_lower text)" by simp
  have "ms False ceased_date_pattern (drop (length pre) (py_lower text)) None \<noteq> []"
    unfolding dr by (rule ceased_ms_complete [OF assms(2,3,4)])
  from re_search_found [OF l this] show ?thesis by (simp add: ceased_year_of_None_iff)
qed
section \<open>The claims\<close>

text \<open>
  Claim C3. For the empty source text, whatever the airline name, the result is: status
  unknown, no successor name (the "n/a" label), confidence low, no year.
\<close>

theorem empty_text_unknown:
  "analyze_status [] airline_name =
     Inr \<lparr>status = Unknown, new_name = None, confidence = Low, ceased_year = None\<rparr>"
  by code_simp

text \<open>The same at one airline name.\<close>

theorem empty_text_unknown_witness:
  "analyze_status [] ''Aegean Airlines'' =
     Inr \<lparr>status = Unknown, new_name = None, confidence = Low, ceased_year = None\<rparr>"
  by (rule empty_text_unknown)

text \<open>
  Claim C9. The result does not depend on the airline name: \<open>airline_lower\<close> is computed
  and never read.
\<close>

theorem subject_name_irrelevant:
  "analyze_status text n1 = analyze_status text n2"
  by (simp add: analyze_status_def Let_def)

text \<open>Two airlines, one text.\<close>

theorem subject_name_irrelevant_witness:
  "analyze_status ''bankrupt'' ''Air Madrid'' = analyze_status ''bankrupt'' ''Swissair''"
  by (rule subject_name_irrelevant)


text \<open>
  Claim C2. The status follows the priority order: defunct when a defunct keyword occurs
  in the lowered text, whatever else matches; otherwise operating when an operating keyword
  occurs; otherwise renamed when a renamed keyword occurs and a successor name was
  extracted; otherwise unknown.
\<close>

theorem status_priority:
  "\<exists>r. analyze_status text airline_name = Inr r \<and>
     status r =
       (if is_defunct text then Defunct (ceased_year r)
        else if is_operating text then Operating
        else if is_renamed text \<and> new_name r \<noteq> None then Renamed
        else Unknown)"
proof -
  from new_name_of_ok [of "text"] obtain n where "new_name_of text = Inr n" by blast
  from analyze_status_eq [OF this, of airline_name] show ?thesis by simp
qed

text \<open>A text in which all three keyword sets match and a name is extracted: defunct wins.\<close>

theorem status_priority_witness:
  "\<exists>r. analyze_status ''Defunct carrier, was operating until it was renamed to Alpha.'' ''Alpha Air'' = Inr r
     \<and> is_defunct ''Defunct carrier, was operating until it was renamed to Alpha.''
     \<and> is_operating ''Defunct carrier, was operating until it was renamed to Alpha.''
     \<and> is_renamed ''Defunct carrier, was operating until it was renamed to Alpha.''
     \<and> new_name r = Some ''Alpha''
     \<and> status r = Defunct None"
proof -
  let ?t = "''Defunct carrier, was operating until it was renamed to Alpha.''"
  have e: "analyze_status ?t ''Alpha Air'' =
    Inr \<lparr>status = Defunct None, new_name = Some ''Alpha'', confidence = Medium, ceased_year = None\<rparr>"
    by code_simp
  have k: "is_defunct ?t \<and> is_operating ?t \<and> is_renamed ?t" by code_simp
  from status_priority [of ?t "''Alpha Air''"] e k show ?thesis by simp
qed

text \<open>
  Claim C1, as amended. The confidence is high when (a defunct keyword matched and a year
  was extracted) or (an operating keyword matched and "currently" occurs in the lowered
  text); otherwise medium when at least one of the defunct and operating keyword sets
  matched; otherwise low. An extracted year is a string of four digits.
\<close>

theorem confidence_tiers:
  "\<exists>r. analyze_status text airline_name = Inr r \<and>
     confidence r =
       (if (is_defunct text \<and> ceased_year r \<noteq> None)
           \<or> (is_operating text \<and> py_in ''currently'' (py_lower text)) then High
        else if is_defunct text \<or> is_operating text then Medium
        else Low) \<and>
     (\<forall>y. ceased_year r = Some y \<longrightarrow> length y = 4 \<and> list_all is_digit y)"
proof -
  from new_name_of_ok [of "text"] obtain n where "new_name_of text = Inr n" by blast
  from analyze_status_eq [OF this, of airline_name] ceased_year_of_digits [of "text"]
  show ?thesis by auto
qed

text \<open>A defunct text with a year.\<close>

theorem confidence_tiers_witness:
  "\<exists>r. analyze_status ''Bankrupt; ceased operation on 3 May 2001.'' ''Air X'' = Inr r
     \<and> ceased_year r = Some ''2001'' \<and> confidence r = High"
proof -
  let ?t = "''Bankrupt; ceased operation on 3 May 2001.''"
  have e: "analyze_status ?t ''Air X'' =
    Inr \<lparr>status = Defunct (Some ''2001''), new_name = None, confidence = High, ceased_year = Some ''2001''\<rparr>"
    by code_simp
  from confidence_tiers [of ?t "''Air X''"] e show ?thesis by simp
qed

text \<open>
  Claim C1 as stated says medium only when exactly one of the two keyword sets matched.
  The text "defunct flying" matches both (no year, no "currently"): the code answers
  medium, the stated rule low.
\<close>

theorem both_matched_is_medium:
  "map_sum id confidence (analyze_status ''defunct flying'' ''Air X'') = Inr Medium
   \<and> is_defunct ''defunct flying'' \<and> is_operating ''defunct flying''
   \<and> claimed_confidence (is_defunct ''defunct flying'') (is_operating ''defunct flying'')
        (ceased_year_of ''defunct flying'' \<noteq> None)
        (py_in ''currently'' (py_lower ''defunct flying'')) = Low"
  by code_simp

text \<open>
  Claim C6 says the extracted successor name is a capitalized phrase. The pattern asks for
  \<open>[A-Z]\<close> first, but it is searched with \<open>re.IGNORECASE\<close>, so a lower-case phrase is
  extracted as well, as on the lower-cased text that \<open>check_airline\<close> passes in.
\<close>

theorem lowercase_name_extracted:
  "analyze_status ''it was renamed to delta airlines.'' ''Northeast'' =
     Inr \<lparr>status = Renamed, new_name = Some ''delta airlines'', confidence = Low,
          ceased_year = None\<rparr>"
  by code_simp

text \<open>
  Claim C7. \<open>analyze_status\<close> returns a result for every text and name (the functions of
  the model are total, and the one raise of the body, \<open>AttributeError\<close> on an absent
  group, is never reached); a text in which no keyword matches gives status unknown and
  confidence low.
\<close>

theorem never_fails:
  "(\<exists>r. analyze_status text airline_name = Inr r) \<and>
   (\<not> is_defunct text \<and> \<not> is_operating text \<and> \<not> is_renamed text \<longrightarrow>
      analyze_status text airline_name =
        Inr \<lparr>status = Unknown, new_name = None, confidence = Low,
             ceased_year = ceased_year_of text\<rparr>)"
proof -
  from new_name_of_ok [of "text"] obtain n where n: "new_name_of text = Inr n" by blast
  have "\<not> is_renamed text \<Longrightarrow> n = None" using n by (simp add: new_name_of_def)
  with analyze_status_eq [OF n, of airline_name] show ?thesis by auto
qed

text \<open>A text without any keyword.\<close>

theorem never_fails_witness:
  "\<not> is_defunct ''Air X is a charter airline.'' \<and> \<not> is_operating ''Air X is a charter airline.''
   \<and> \<not> is_renamed ''Air X is a charter airline.''
   \<and> analyze_status ''Air X is a charter airline.'' ''Air X'' =
        Inr \<lparr>status = Unknown, new_name = None, confidence = Low, ceased_year = None\<rparr>"
proof -
  let ?t = "''Air X is a charter airline.''"
  have k: "\<not> is_defunct ?t \<and> \<not> is_operating ?t \<and> \<not> is_renamed ?t" by code_simp
  have y: "ceased_year_of ?t = None" by code_simp
  from never_fails [of ?t "''Air X''"] k y show ?thesis by simp
qed

text \<open>
  Claim C4, as amended. A text that contains "ceased operations in 1998" is classified
  defunct with confidence high and a year of four digits; the year is "1998" when the
  first "ceased operation" of the lowered text is the one of that phrase (\<open>re.search\<close>
  takes the leftmost match).
\<close>

theorem ceased_in_1998:
  assumes "py_in ''ceased operations in 1998'' text"
  shows "\<exists>r y. analyze_status text airline_name = Inr r
           \<and> status r = Defunct (Some y) \<and> ceased_year r = Some y \<and> confidence r = High
           \<and> length y = 4 \<and> list_all is_digit y
           \<and> (\<forall>k. py_find ''ceased operation'' (py_lower text) = Some k
                    \<and> starts_with (drop k (py_lower text)) ''ceased operations in 1998''
                  \<longrightarrow> y = ''1998'')"
proof -
  from contains_1998_year [OF assms] obtain y where y: "ceased_year_of text = Some y" by blast
  from ceased_year_of_digits [OF y] have dg: "length y = 4 \<and> list_all is_digit y" .
  from new_name_of_ok [of "text"] obtain n where "new_name_of text = Inr n" by blast
  from analyze_status_eq [OF this, of airline_name] contains_1998_defunct [OF assms] y
  have r: "analyze_status text airline_name =
      Inr \<lparr>status = Defunct (Some y), new_name = n, confidence = High, ceased_year = Some y\<rparr>"
    by simp
  have "\<forall>k. py_find ''ceased operation'' (py_lower text) = Some k
              \<and> starts_with (drop k (py_lower text)) ''ceased operations in 1998''
            \<longrightarrow> y = ''1998''"
    using first_1998_year [of "text"] y by auto
  with r dg show ?thesis by simp
qed

text \<open>One such text.\<close>

theorem ceased_in_1998_witness:
  "py_in ''ceased operations in 1998'' ''Air Foo ceased operations in 1998.''
   \<and> py_find ''ceased operation'' (py_lower ''Air Foo ceased operations in 1998.'') = Some 8
   \<and> analyze_status ''Air Foo ceased operations in 1998.'' ''Air Foo'' =
       Inr \<lparr>status = Defunct (Some ''1998''), new_name = None, confidence = High,
            ceased_year = Some ''1998''\<rparr>"
proof -
  let ?t = "''Air Foo ceased operations in 1998.''"
  have h: "py_in ''ceased operations in 1998'' ?t" by code_simp
  have f: "py_find ''ceased operation'' (py_lower ?t) = Some 8" by code_simp
  have e: "analyze_status ?t ''Air Foo'' =
       Inr \<lparr>status = Defunct (Some ''1998''), new_name = None, confidence = High,
            ceased_year = Some ''1998''\<rparr>" by code_simp
  from ceased_in_1998 [OF h, of "''Air Foo''"] h f e show ?thesis by simp
qed

text \<open>Claim C4 as stated promises the year "1998" for every text that contains the phrase. An
  earlier "ceased operations in 1997" is matched first.\<close>

theorem earlier_year_wins:
  "py_in ''ceased operations in 1998'' ''ceased operations in 1997, ceased operations in 1998''
   \<and> analyze_status ''ceased operations in 1997, ceased operations in 1998'' ''Air Foo'' =
       Inr \<lparr>status = Defunct (Some ''1997''), new_name = None, confidence = High,
            ceased_year = Some ''1997''\<rparr>"
  by code_simp

text \<open>
  Claim C5, as amended. A text that contains "was renamed to Delta Airlines." and no
  defunct or operating keyword is classified renamed, with a successor name that is not
  empty; the name is "Delta Airlines" when the first "renamed to" of the text, compared
  without case, is the one of that phrase.
\<close>

theorem renamed_to_delta:
  assumes "py_in ''was renamed to Delta Airlines.'' text"
    and "\<not> is_defunct text" and "\<not> is_operating text"
  shows "\<exists>r n. analyze_status text airline_name = Inr r
           \<and> status r = Renamed \<and> new_name r = Some n \<and> n \<noteq> []
           \<and> (\<forall>k. py_find ''renamed to'' (py_lower text) = Some k
                    \<and> starts_with (drop k text) ''renamed to Delta Airlines.''
                  \<longrightarrow> n = ''Delta Airlines'')"
proof -
  from contains_delta_name [OF assms(1)] obtain n where
    n: "new_name_of text = Inr (Some n)" "n \<noteq> []" by blast
  from analyze_status_eq [OF n(1), of airline_name] assms(2,3) contains_delta_renamed [OF assms(1)]
  have r: "analyze_status text airline_name =
      Inr \<lparr>status = Renamed, new_name = Some n, confidence = Low,
           ceased_year = ceased_year_of text\<rparr>" by simp
  have "\<forall>k. py_find ''renamed to'' (py_lower text) = Some k
              \<and> starts_with (drop k text) ''renamed to Delta Airlines.''
            \<longrightarrow> n = ''Delta Airlines''"
    using first_delta_name [of "text"] contains_delta_renamed [OF assms(1)] n(1) by auto
  with r n(2) show ?thesis by simp
qed

text \<open>One such text.\<close>

theorem renamed_to_delta_witness:
  "py_in ''was renamed to Delta Airlines.'' ''Northeast Airlines was renamed to Delta Airlines.''
   \<and> \<not> is_defunct ''Northeast Airlines was renamed to Delta Airlines.''
   \<and> \<not> is_operating ''Northeast Airlines was renamed to Delta Airlines.''
   \<and> py_find ''renamed to'' (py_lower ''Northeast Airlines was renamed to Delta Airlines.'') = Some 23
   \<and> analyze_status ''Northeast Airlines was renamed to Delta Airlines.'' ''Northeast Airlines'' =
       Inr \<lparr>status = Renamed, new_name = Some ''Delta Airlines'', confidence = Low,
            ceased_year = None\<rparr>"
proof -
  let ?t = "''Northeast Airlines was renamed to Delta Airlines.''"
  have h: "py_in ''was renamed to Delta Airlines.'' ?t \<and> \<not> is_defunct ?t \<and> \<not> is_operating ?t"
    by code_simp
  have f: "py_find ''renamed to'' (py_lower ?t) = Some 23" by code_simp
  have e: "analyze_status ?t ''Northeast Airlines'' =
       Inr \<lparr>status = Renamed, new_name = Some ''Delta Airlines'', confidence = Low,
            ceased_year = None\<rparr>" by code_simp
  from h have h1: "py_in ''was renamed to Delta Airlines.'' ?t" and h2: "\<not> is_defunct ?t"
    and h3: "\<not> is_operating ?t" by simp_all
  from renamed_to_delta [OF h1 h2 h3, of "''Northeast Airlines''"] h f e show ?thesis by simp
qed

text \<open>Claim C5 as stated promises a name containing "Delta Airlines" for every such text. An
  earlier "renamed to Alpha," is matched first.\<close>

theorem earlier_name_wins:
  "py_in ''was renamed to Delta Airlines.''
         ''It was renamed to Alpha, then was renamed to Delta Airlines.''
   \<and> \<not> is_defunct ''It was renamed to Alpha, then was renamed to Delta Airlines.''
   \<and> \<not> is_operating ''It was renamed to Alpha, then was renamed to Delta Airlines.''
   \<and> analyze_status ''It was renamed to Alpha, then was renamed to Delta Airlines.'' ''Northeast'' =
       Inr \<lparr>status = Renamed, new_name = Some ''Alpha'', confidence = Low, ceased_year = None\<rparr>
   \<and> \<not> py_in ''Delta Airlines'' ''Alpha''"
  by code_simp

text \<open>
  Claim C10, as amended. The year is searched whether or not a defunct keyword matched:
  it is present exactly when the lowered text has "ceased operation" followed, on the
  same line (no newline in between), by four digits, and it is then such a group of four
  digits. The text "ceased operation in 1999" has the year "1999" and status unknown.
\<close>

theorem ceased_year_unconditional:
  "(\<exists>r. analyze_status text airline_name = Inr r
      \<and> (\<forall>y. ceased_year r = Some y \<longrightarrow>
            (\<exists>pre mid post. py_lower text = pre @ ''ceased operation'' @ mid @ y @ post
               \<and> CHR 0x0A \<notin> set mid \<and> length y = 4 \<and> list_all is_digit y))
      \<and> (\<forall>pre mid d post. py_lower text = pre @ ''ceased operation'' @ mid @ d @ post
               \<and> CHR 0x0A \<notin> set mid \<and> length d = 4 \<and> list_all is_digit d
             \<longrightarrow> ceased_year r \<noteq> None))
   \<and> analyze_status ''ceased operation in 1999'' airline_name =
       Inr \<lparr>status = Unknown, new_name = None, confidence = Low, ceased_year = Some ''1999''\<rparr>"
proof -
  from new_name_of_ok [of "text"] obtain n where "new_name_of text = Inr n" by blast
  from analyze_status_eq [OF this, of airline_name] obtain r where
    r: "analyze_status text airline_name = Inr r" and y: "ceased_year r = ceased_year_of text"
    by simp
  have 1: "\<forall>y. ceased_year r = Some y \<longrightarrow>
            (\<exists>pre mid post. py_lower text = pre @ ''ceased operation'' @ mid @ y @ post
               \<and> CHR 0x0A \<notin> set mid \<and> length y = 4 \<and> list_all is_digit y)"
    unfolding y using ceased_year_Some by blast
  have 2: "\<forall>pre mid d post. py_lower text = pre @ ''ceased operation'' @ mid @ d @ post
               \<and> CHR 0x0A \<notin> set mid \<and> length d = 4 \<and> list_all is_digit d
             \<longrightarrow> ceased_year r \<noteq> None"
    unfolding y using ceased_year_found by blast
  have 3: "analyze_status ''ceased operation in 1999'' airline_name =
       Inr \<lparr>status = Unknown, new_name = None, confidence = Low, ceased_year = Some ''1999''\<rparr>"
    by code_simp
  from r 1 2 3 show ?thesis by blast
qed

text \<open>A text with the singular "operation", so no defunct keyword.\<close>

theorem ceased_year_unconditional_witness:
  "\<not> is_defunct ''Air Foo ceased operation in May 1999.''
   \<and> py_lower ''Air Foo ceased operation in May 1999.''
       = ''air foo '' @ ''ceased operation'' @ '' in may '' @ ''1999'' @ ''.''
   \<and> analyze_status ''Air Foo ceased operation in May 1999.'' ''Air Foo'' =
       Inr \<lparr>status = Unknown, new_name = None, confidence = Low, ceased_year = Some ''1999''\<rparr>"
proof -
  let ?t = "''Air Foo ceased operation in May 1999.''"
  have k: "\<not> is_defunct ?t" by code_simp
  have l: "py_lower ?t = ''air foo '' @ ''ceased operation'' @ '' in may '' @ ''1999'' @ ''.''"
    by code_simp
  have e: "analyze_status ?t ''Air Foo'' =
       Inr \<lparr>status = Unknown, new_name = None, confidence = Low, ceased_year = Some ''1999''\<rparr>"
    by code_simp
  from ceased_year_unconditional [of ?t "''Air Foo''"] k l e show ?thesis by simp
qed

text \<open>Claim C10 as stated lets the four digits follow at any distance. The dot of \<open>.*?\<close> does
  not match a newline, so digits on the next line are not found.\<close>

theorem newline_stops_year_search:
  "claimed_year_found (py_lower (''ceased operations'' @ [CHR 0x0A] @ ''in 1998''))
   \<and> analyze_status (''ceased operations'' @ [CHR 0x0A] @ ''in 1998'') ''Air Foo'' =
       Inr \<lparr>status = Defunct None, new_name = None, confidence = Medium, ceased_year = None\<rparr>"
proof -
  let ?t = "''ceased operations'' @ [CHR 0x0A] @ ''in 1998''"
  have l: "py_lower ?t = [] @ ''ceased operation'' @ (''s'' @ [CHR 0x0A] @ ''in '') @ ''1998'' @ []"
    by code_simp
  have d: "length ''1998'' = 4 \<and> list_all is_digit ''1998''" by code_simp
  from l d have "claimed_year_found (py_lower ?t)" unfolding claimed_year_found_def by blast
  moreover have "analyze_status ?t ''Air Foo'' =
       Inr \<lparr>status = Defunct None, new_name = None, confidence = Medium, ceased_year = None\<rparr>"
    by code_simp
  ultimately show ?thesis by simp
qed

end
